theory Spec2Isabelle
  imports Complex_Main "HOL-Library.Word"
begin

unbundle bit_operations_syntax

section \<open>The synthesis and PCM pipeline of \<^verbatim>\<open>_exercice_version_prof.py\<close>\<close>

text \<open>
  The functions below follow \<^verbatim>\<open>_exercice_version_prof.py\<close> line by line. A one-dimensional
  numpy array is a list.

  The samples are \<^verbatim>\<open>float64\<close> values, type \<open>npfloat\<close>: a finite value is the real number
  it denotes, beside the two infinities and NaN. Every arithmetic operation on finite
  values computes the exact real result and rounds it to the nearest \<^verbatim>\<open>float64\<close>
  (\<open>round_f64\<close>: 53 bits, ties to even, gradual underflow, overflow to an infinity), as
  IEEE 754 prescribes for \<open>+\<close>, \<open>*\<close> and \<open>/\<close>. The sign of a zero is not kept. The
  value of \<^verbatim>\<open>sin\<close> on a finite argument is the C library's, which is not specified bit by
  bit: it is the parameter \<open>libm_sin\<close> of the functions that call \<^verbatim>\<open>np.sin\<close>. Running out of
  memory when an array is allocated is not part of the model.
\<close>

subsection \<open>Constants\<close>

definition SAMPLING_FREQ :: int where
  "SAMPLING_FREQ = 44100"

definition SAMPLE_WIDTH :: nat where
  "SAMPLE_WIDTH = 16"

definition MAX_INT_SAMPLE_VALUE :: int where
  "MAX_INT_SAMPLE_VALUE = 2 ^ (SAMPLE_WIDTH - 1) - 1"

text \<open>The exceptions the modelled functions can raise.\<close>

datatype error = ValueError

subsection \<open>The \<^verbatim>\<open>float64\<close> values and their arithmetic\<close>

datatype npfloat = Fin real | PInf | NInf | NaN

text \<open>The nearest integer, a tie going to the even one.\<close>

definition round_half_even :: "real \<Rightarrow> int" where
  "round_half_even x =
     (let f = \<lfloor>x\<rfloor>; d = x - of_int f
      in if d < 1 / 2 then f else if 1 / 2 < d then f + 1 else if even f then f else f + 1)"

text \<open>
  The binary exponent of \<open>x\<close> within the range of \<^verbatim>\<open>float64\<close>: the largest \<open>e \<le> 1023\<close> with
  \<open>2 powi e \<le> \<bar>x\<bar>\<close>, and \<open>- 1022\<close> for the subnormal numbers and zero.
\<close>

function f64_search :: "int \<Rightarrow> real \<Rightarrow> int" where
  "f64_search e x =
     (if e \<le> - 1022 then - 1022 else if 2 powi e \<le> \<bar>x\<bar> then e else f64_search (e - 1) x)"
  by pat_completeness auto
termination
  by (relation "measure (\<lambda>(e, x). nat (e + 1022))") auto

declare f64_search.simps [simp del]

definition f64_exponent :: "real \<Rightarrow> int" where
  "f64_exponent x = f64_search 1023 x"

text \<open>
  The nearest multiple of the unit in the last place, \<open>2 powi (e - 52)\<close>: a significand of 53 bits.
\<close>

definition f64_nearest :: "real \<Rightarrow> real" where
  "f64_nearest x =
     (let q = f64_exponent x - 52
      in of_int (round_half_even (x / 2 powi q)) * 2 powi q)"

text \<open>Rounding to \<^verbatim>\<open>float64\<close>: a result of magnitude \<open>2 ^ 1024\<close> or more is an infinity.\<close>

definition round_f64 :: "real \<Rightarrow> npfloat" where
  "round_f64 x =
     (let v = f64_nearest x
      in if 2 ^ 1024 \<le> v then PInf else if v \<le> - (2 ^ 1024) then NInf else Fin v)"

fun fabs :: "npfloat \<Rightarrow> npfloat" where
  "fabs (Fin r) = Fin \<bar>r\<bar>"
| "fabs PInf = PInf"
| "fabs NInf = PInf"
| "fabs NaN = NaN"

text \<open>\<^verbatim>\<open>a > b\<close>: false whenever one side is NaN.\<close>

fun fgt :: "npfloat \<Rightarrow> npfloat \<Rightarrow> bool" where
  "fgt NaN _ = False"
| "fgt _ NaN = False"
| "fgt (Fin a) (Fin b) = (a > b)"
| "fgt PInf PInf = False"
| "fgt PInf _ = True"
| "fgt _ PInf = False"
| "fgt NInf _ = False"
| "fgt (Fin a) NInf = True"

text \<open>
  \<^verbatim>\<open>a / b\<close> with a numpy scalar on one side: a division by zero raises nothing (numpy
  only warns) and gives an infinity, or NaN for \<^verbatim>\<open>0 / 0\<close>. The only divisors of the program
  are a maximum of absolute values and a positive constant, so a zero divisor is \<^verbatim>\<open>+0.0\<close>.
\<close>

fun fdiv :: "npfloat \<Rightarrow> npfloat \<Rightarrow> npfloat" where
  "fdiv NaN _ = NaN"
| "fdiv _ NaN = NaN"
| "fdiv (Fin a) (Fin b) =
     (if b = 0 then (if a = 0 then NaN else if 0 < a then PInf else NInf)
      else round_f64 (a / b))"
| "fdiv (Fin a) _ = Fin 0"
| "fdiv PInf (Fin b) = (if 0 \<le> b then PInf else NInf)"
| "fdiv NInf (Fin b) = (if 0 \<le> b then NInf else PInf)"
| "fdiv _ _ = NaN"

fun fmul :: "npfloat \<Rightarrow> npfloat \<Rightarrow> npfloat" where
  "fmul NaN _ = NaN"
| "fmul _ NaN = NaN"
| "fmul (Fin a) (Fin b) = round_f64 (a * b)"
| "fmul PInf (Fin b) = (if b = 0 then NaN else if 0 < b then PInf else NInf)"
| "fmul NInf (Fin b) = (if b = 0 then NaN else if 0 < b then NInf else PInf)"
| "fmul (Fin a) PInf = (if a = 0 then NaN else if 0 < a then PInf else NInf)"
| "fmul (Fin a) NInf = (if a = 0 then NaN else if 0 < a then NInf else PInf)"
| "fmul PInf PInf = PInf"
| "fmul PInf NInf = NInf"
| "fmul NInf PInf = NInf"
| "fmul NInf NInf = PInf"

fun fadd :: "npfloat \<Rightarrow> npfloat \<Rightarrow> npfloat" where
  "fadd NaN _ = NaN"
| "fadd _ NaN = NaN"
| "fadd (Fin a) (Fin b) = round_f64 (a + b)"
| "fadd PInf NInf = NaN"
| "fadd NInf PInf = NaN"
| "fadd PInf _ = PInf"
| "fadd NInf _ = NInf"
| "fadd (Fin a) PInf = PInf"
| "fadd (Fin a) NInf = NInf"

text \<open>\<^verbatim>\<open>np.sign\<close>: \<open>- 1\<close>, \<open>0\<close> or \<open>1\<close>, and NaN for NaN.\<close>

fun fsign :: "npfloat \<Rightarrow> npfloat" where
  "fsign (Fin r) = Fin (sgn r)"
| "fsign PInf = Fin 1"
| "fsign NInf = Fin (- 1)"
| "fsign NaN = NaN"

text \<open>
  \<^verbatim>\<open>np.sin\<close>: the C library's value \<open>libm_sin\<close> on a finite argument, NaN on an infinity
  (numpy only warns) and on NaN.
\<close>

fun fsin :: "(real \<Rightarrow> real) \<Rightarrow> npfloat \<Rightarrow> npfloat" where
  "fsin libm_sin (Fin r) = Fin (libm_sin r)"
| "fsin libm_sin _ = NaN"

text \<open>\<^verbatim>\<open>np.pi\<close>, the \<^verbatim>\<open>float64\<close> nearest to \<open>\<pi>\<close>: \<^verbatim>\<open>0x400921FB54442D18\<close>.\<close>

definition np_pi :: npfloat where
  "np_pi = Fin (884279719003555 / 2 ^ 48)"

subsection \<open>Channels\<close>

text \<open>
  \<^verbatim>\<open>zip(*channels)\<close>: with no argument the iterator is empty; otherwise each step takes
  the next element of every channel, and the iteration stops as soon as one channel is
  exhausted.
\<close>

function zip_star :: "'a list list \<Rightarrow> 'a list list" where
  "zip_star channels =
     (if channels = [] \<or> [] \<in> set channels then []
      else map hd channels # zip_star (map tl channels))"
  by pat_completeness auto
termination
proof (relation "measure (\<lambda>channels. length (hd channels))")
  fix channels :: "'a list list"
  assume "\<not> (channels = [] \<or> [] \<in> set channels)"
  then obtain c cs where "channels = c # cs" "c \<noteq> []"
    by (cases channels) auto
  then show "(map tl channels, channels) \<in> measure (\<lambda>channels. length (hd channels))"
    by simp
qed simp

declare zip_star.simps [simp del]

text \<open>
  \<^verbatim>\<open>np.fromiter((sample for samples in zip(*channels) for sample in samples), float)\<close>:
  the frames of \<^verbatim>\<open>zip\<close>, flattened in order.
\<close>

definition merge_channels :: "real list list \<Rightarrow> real list" where
  "merge_channels channels = concat (zip_star channels)"

text \<open>
  The slice \<^verbatim>\<open>xs[start::step]\<close> for \<open>0 \<le> start\<close> and \<open>0 < step\<close>: as CPython computes it,
  it has \<open>(len - start - 1) div step + 1\<close> elements when \<open>start < len\<close> and none otherwise.
  A step of zero raises in Python; \<^verbatim>\<open>separate_channels\<close> never takes such a slice, since
  \<^verbatim>\<open>range(0)\<close> is empty.
\<close>

definition slice_from :: "nat \<Rightarrow> nat \<Rightarrow> 'a list \<Rightarrow> 'a list" where
  "slice_from start step xs =
     (if start < length xs
      then map (\<lambda>k. xs ! (start + k * step)) [0..<(length xs - start - 1) div step + 1]
      else [])"

text \<open>\<^verbatim>\<open>[samples[i::num_channels] for i in range(num_channels)]\<close>\<close>

definition separate_channels :: "real list \<Rightarrow> nat \<Rightarrow> real list list" where
  "separate_channels samples num_channels =
     map (\<lambda>i. slice_from i num_channels samples) [0..<num_channels]"

subsection \<open>Time axis and waveforms\<close>

text \<open>
  \<^verbatim>\<open>np.arange(0, stop)\<close> for a float \<open>stop\<close>: the length is the ceiling of \<open>stop\<close>, and
  \<^verbatim>\<open>ValueError\<close> is raised when that is NaN or outside the range of a signed 64-bit integer
  (so for an infinite \<open>stop\<close>); there is no element when \<open>stop \<le> 0\<close>. Element \<open>i\<close> is
  \<open>i\<close> converted to \<^verbatim>\<open>float64\<close>.
\<close>

definition np_arange :: "npfloat \<Rightarrow> error + npfloat list" where
  "np_arange stop =
     (case stop of
        Fin s \<Rightarrow>
          if - (2 ^ 63) \<le> \<lceil>s\<rceil> \<and> \<lceil>s\<rceil> \<le> 2 ^ 63
          then Inr (map (\<lambda>i. round_f64 (real i)) [0..<nat \<lceil>s\<rceil>])
          else Inl ValueError
      | _ \<Rightarrow> Inl ValueError)"

text \<open>\<^verbatim>\<open>np.arange(0, duration * SAMPLING_FREQ) / SAMPLING_FREQ\<close>\<close>

definition generate_sample_time_points :: "npfloat \<Rightarrow> error + npfloat list" where
  "generate_sample_time_points duration =
     (case np_arange (fmul duration (Fin (real_of_int SAMPLING_FREQ))) of
        Inl e \<Rightarrow> Inl e
      | Inr points \<Rightarrow> Inr (map (\<lambda>x. fdiv x (Fin (real_of_int SAMPLING_FREQ))) points))"

text \<open>
  \<^verbatim>\<open>amplitude * np.sin(freq * 2 * np.pi * time_points)\<close>: the products are taken from the
  left, the two scalar ones first.
\<close>

definition sine :: "(real \<Rightarrow> real) \<Rightarrow> npfloat \<Rightarrow> npfloat \<Rightarrow> npfloat \<Rightarrow> error + npfloat list" where
  "sine libm_sin freq amplitude duration =
     (case generate_sample_time_points duration of
        Inl e \<Rightarrow> Inl e
      | Inr time_points \<Rightarrow>
          Inr (map (\<lambda>t. fmul amplitude (fsin libm_sin (fmul (fmul (fmul freq (Fin 2)) np_pi) t)))
                 time_points))"

text \<open>\<^verbatim>\<open>amplitude * np.sign(sine(freq, 1, duration))\<close>\<close>

definition square :: "(real \<Rightarrow> real) \<Rightarrow> npfloat \<Rightarrow> npfloat \<Rightarrow> npfloat \<Rightarrow> error + npfloat list" where
  "square libm_sin freq amplitude duration =
     (case sine libm_sin freq (Fin 1) duration of
        Inl e \<Rightarrow> Inl e
      | Inr s \<Rightarrow> Inr (map (\<lambda>y. fmul amplitude (fsign y)) s))"

text \<open>
  \<^verbatim>\<open>np.add(signal, overtone, out=signal)\<close> on two arrays: the elementwise sum. The two
  arrays of every call in the program have the same length, since they come from the
  same duration.
\<close>

definition np_add :: "npfloat list \<Rightarrow> npfloat list \<Rightarrow> npfloat list" where
  "np_add signal overtone = map2 fadd signal overtone"

text \<open>
  The loop over \<^verbatim>\<open>overtones\<close> threads \<^verbatim>\<open>signal\<close> through its iterations; an exception of
  a call of \<^verbatim>\<open>sine\<close> ends it.
\<close>

fun add_overtones ::
  "(real \<Rightarrow> real) \<Rightarrow> npfloat \<Rightarrow> npfloat \<Rightarrow> npfloat \<Rightarrow> (npfloat \<times> npfloat) list \<Rightarrow> npfloat list
     \<Rightarrow> error + npfloat list" where
  "add_overtones libm_sin root_freq amplitude duration [] signal = Inr signal"
| "add_overtones libm_sin root_freq amplitude duration ((freq_factor, amp_factor) # overtones) signal =
     (case sine libm_sin (fmul root_freq freq_factor) (fmul amplitude amp_factor) duration of
        Inl e \<Rightarrow> Inl e
      | Inr overtone \<Rightarrow>
          add_overtones libm_sin root_freq amplitude duration overtones (np_add signal overtone))"

definition sine_with_overtones ::
  "(real \<Rightarrow> real) \<Rightarrow> npfloat \<Rightarrow> npfloat \<Rightarrow> (npfloat \<times> npfloat) list \<Rightarrow> npfloat
     \<Rightarrow> error + npfloat list" where
  "sine_with_overtones libm_sin root_freq amplitude overtones duration =
     (case sine libm_sin root_freq amplitude duration of
        Inl e \<Rightarrow> Inl e
      | Inr signal \<Rightarrow> add_overtones libm_sin root_freq amplitude duration overtones signal)"

subsection \<open>Normalisation\<close>

text \<open>
  Python's builtin \<^verbatim>\<open>max\<close> over an iterable: \<^verbatim>\<open>ValueError\<close> when it is empty; otherwise
  it starts from the first item and replaces the current maximum by each later item that
  compares greater.
\<close>

fun py_max :: "npfloat list \<Rightarrow> error + npfloat" where
  "py_max [] = Inl ValueError"
| "py_max (x # xs) = Inr (fold (\<lambda>item maxval. if fgt item maxval then item else maxval) xs x)"

text \<open>\<^verbatim>\<open>normalize\<close>; the name \<open>normalize\<close> itself is a constant of HOL.\<close>

definition normalize_samples :: "npfloat list \<Rightarrow> npfloat \<Rightarrow> error + npfloat list" where
  "normalize_samples samples norm_target =
     (let abs_samples = map fabs samples
      in case py_max abs_samples of
           Inl e \<Rightarrow> Inl e
         | Inr max_sample \<Rightarrow>
             (let coeff = fdiv norm_target max_sample;
                  normalized_samples = map (fmul coeff) samples
              in Inr normalized_samples))"

subsection \<open>PCM codec in exact arithmetic\<close>

text \<open>
  The two conversions on finite samples with the product and the quotient taken exactly,
  as the real numbers they approximate: the setting of the quantisation bound.
\<close>


text \<open>
  \<^verbatim>\<open>.astype("<i2")\<close> casts a float to a signed 16-bit integer as C does: the fraction is
  dropped (truncation toward zero). The word keeps the low 16 bits of the integer; after
  the clip every integer is in range.
\<close>

definition trunc_toward_zero :: "real \<Rightarrow> int" where
  "trunc_toward_zero x = (if 0 \<le> x then \<lfloor>x\<rfloor> else \<lceil>x\<rceil>)"


text \<open>\<^verbatim>\<open>.tobytes()\<close> of a little-endian 16-bit array: low byte, then high byte.\<close>

definition tobytes :: "16 word list \<Rightarrow> 8 word list" where
  "tobytes int_samples = concat (map (\<lambda>w. [ucast w, ucast (drop_bit 8 w)]) int_samples)"





subsection \<open>PCM encoding in \<^verbatim>\<open>float64\<close> arithmetic\<close>

text \<open>
  \<^verbatim>\<open>np.maximum\<close> and \<^verbatim>\<open>np.minimum\<close> return NaN when an argument is NaN;
  \<^verbatim>\<open>np.clip(x, a_min, a_max)\<close> is \<^verbatim>\<open>minimum(maximum(x, a_min), a_max)\<close>.
\<close>

definition fmaximum :: "npfloat \<Rightarrow> npfloat \<Rightarrow> npfloat" where
  "fmaximum a b = (if a = NaN \<or> b = NaN then NaN else if fgt b a then b else a)"

definition fminimum :: "npfloat \<Rightarrow> npfloat \<Rightarrow> npfloat" where
  "fminimum a b = (if a = NaN \<or> b = NaN then NaN else if fgt a b then b else a)"

definition np_clip_f64 :: "npfloat \<Rightarrow> npfloat \<Rightarrow> npfloat \<Rightarrow> npfloat" where
  "np_clip_f64 x a_min a_max = fminimum (fmaximum x a_min) a_max"

text \<open>
  \<^verbatim>\<open>.astype("<i2")\<close> is the C conversion of a \<^verbatim>\<open>double\<close> to a signed 16-bit integer: the
  fraction is dropped when the result fits; for NaN, an infinity and a value out of
  range C leaves the result undefined, and the word the platform produces is the
  parameter \<open>platform_cast\<close>.
\<close>

definition astype_i2_f64 :: "(npfloat \<Rightarrow> 16 word) \<Rightarrow> npfloat \<Rightarrow> 16 word" where
  "astype_i2_f64 platform_cast x =
     (case x of
        Fin v \<Rightarrow>
          if - 32769 < v \<and> v < 32768 then word_of_int (trunc_toward_zero v)
          else platform_cast x
      | _ \<Rightarrow> platform_cast x)"

definition convert_to_bytes_f64 :: "(npfloat \<Rightarrow> 16 word) \<Rightarrow> npfloat list \<Rightarrow> 8 word list" where
  "convert_to_bytes_f64 platform_cast samples =
     (let clipped = map (\<lambda>x. np_clip_f64 x (Fin (- 1)) (Fin 1)) samples;
          int_samples =
            map (\<lambda>c. astype_i2_f64 platform_cast (fmul c (Fin (real_of_int MAX_INT_SAMPLE_VALUE))))
              clipped;
          sample_bytes = tobytes int_samples
      in sample_bytes)"

subsection \<open>Auxiliary notions of the statements\<close>

text \<open>The length of the shortest channel; \<^verbatim>\<open>zip\<close> yields that many frames.\<close>

definition shortest :: "'a list list \<Rightarrow> nat" where
  "shortest channels = (if channels = [] then 0 else Min (set (map length channels)))"


text \<open>
  Element \<open>i\<close> of the time axis, \<open>i / 44100\<close> in \<^verbatim>\<open>float64\<close>, and the argument
  \<^verbatim>\<open>freq * 2 * np.pi * t\<close> of \<^verbatim>\<open>np.sin\<close> there.
\<close>

definition time_point :: "nat \<Rightarrow> npfloat" where
  "time_point i = fdiv (round_f64 (real i)) (Fin (real_of_int SAMPLING_FREQ))"

definition sine_arg :: "npfloat \<Rightarrow> nat \<Rightarrow> npfloat" where
  "sine_arg freq i = fmul (fmul (fmul freq (Fin 2)) np_pi) (time_point i)"

text \<open>A real number that is a finite \<^verbatim>\<open>float64\<close> value: rounding leaves it as it is.\<close>

definition is_f64 :: "real \<Rightarrow> bool" where
  "is_f64 x = (round_f64 x = Fin x)"

section \<open>Properties of interleaving\<close>

lemma zip_star_Nil: "zip_star [] = []"
  by (simp add: zip_star.simps)

lemma shortest_zero: "[] \<in> set channels \<Longrightarrow> shortest channels = 0"
proof -
  assume a: "[] \<in> set channels"
  then have "Min (set (map length channels)) \<le> 0"
    by (intro Min_le) (auto simp: image_iff)
  with a show ?thesis by (auto simp: shortest_def)
qed

lemma shortest_tl:
  assumes "channels \<noteq> []" "[] \<notin> set channels"
  shows "shortest channels = Suc (shortest (map tl channels))"
proof -
  have ne: "length ` set channels \<noteq> {}" using assms by simp
  have pos: "\<forall>c\<in>set channels. length (tl c) = length c - 1" by simp
  have "Suc (Min ((\<lambda>c. length (tl c)) ` set channels)) = Min (Suc ` (\<lambda>c. length (tl c)) ` set channels)"
    using assms by (intro mono_Min_commute) (auto simp: mono_def)
  also have "Suc ` (\<lambda>c. length (tl c)) ` set channels = length ` set channels"
  proof -
    have "Suc (length (tl c)) = length c" if "c \<in> set channels" for c
    proof -
      have "c \<noteq> []" using that assms by auto
      then show ?thesis by simp
    qed
    then show ?thesis by (simp add: image_image)
  qed
  finally show ?thesis using assms by (simp add: shortest_def image_image)
qed

lemma zip_star_frames:
  "zip_star channels = map (\<lambda>i. map (\<lambda>c. c ! i) channels) [0..<shortest channels]"
proof (induction channels rule: zip_star.induct)
  case (1 channels)
  show ?case
  proof (cases "channels = [] \<or> [] \<in> set channels")
    case True
    then have "shortest channels = 0"
      by (auto simp: shortest_zero) (simp add: shortest_def)
    with True show ?thesis by (simp add: zip_star.simps)
  next
    case False
    then have sh: "shortest channels = Suc (shortest (map tl channels))"
      by (simp add: shortest_tl)
    have ne: "c \<noteq> []" if "c \<in> set channels" for c
      using that False by auto
    have hd0: "map hd channels = map (\<lambda>c. c ! 0) channels"
      using ne by (simp add: hd_conv_nth)
    have tls: "map (\<lambda>c. c ! i) (map tl channels) = map (\<lambda>c. c ! Suc i) channels" for i
    proof -
      have "tl c ! i = c ! Suc i" if "c \<in> set channels" for c
        using ne [OF that] by (cases c) auto
      then show ?thesis by simp
    qed
    have "zip_star channels = map hd channels # zip_star (map tl channels)"
      using False by (subst zip_star.simps) simp
    also have "\<dots> = map (\<lambda>c. c ! 0) channels #
        map (\<lambda>i. map (\<lambda>c. c ! Suc i) channels) [0..<shortest (map tl channels)]"
      using 1 False hd0 tls by simp
    also have "\<dots> = map (\<lambda>i. map (\<lambda>c. c ! i) channels) [0..<Suc (shortest (map tl channels))]"
      by (simp only: upt_conv_Cons [of 0] map_Suc_upt [symmetric]) (simp add: comp_def)
    finally show ?thesis using sh by simp
  qed
qed


lemma length_concat_uniform:
  "\<forall>xs\<in>set xss. length xs = n \<Longrightarrow> length (concat xss) = length xss * n"
  by (induction xss) auto

lemma nth_concat_uniform:
  "\<forall>xs\<in>set xss. length xs = n \<Longrightarrow> i < length xss \<Longrightarrow> c < n \<Longrightarrow>
     concat xss ! (i * n + c) = xss ! i ! c"
proof (induction xss arbitrary: i)
  case Nil
  then show ?case by simp
next
  case (Cons xs xss)
  show ?case
  proof (cases i)
    case 0
    with Cons.prems show ?thesis by (simp add: nth_append)
  next
    case (Suc j)
    with Cons.prems have "concat xss ! (j * n + c) = xss ! j ! c"
      by (intro Cons.IH) auto
    with Suc Cons.prems show ?thesis by (simp add: nth_append)
  qed
qed

lemma length_merge_channels:
  "length (merge_channels channels) = shortest channels * length channels"
proof -
  have "length (concat (zip_star channels)) = length (zip_star channels) * length channels"
    by (rule length_concat_uniform) (auto simp: zip_star_frames)
  then show ?thesis by (simp add: merge_channels_def zip_star_frames)
qed

lemma nth_merge_channels:
  assumes "i < shortest channels" "c < length channels"
  shows "merge_channels channels ! (i * length channels + c) = channels ! c ! i"
proof -
  have "concat (zip_star channels) ! (i * length channels + c) = zip_star channels ! i ! c"
    using assms by (intro nth_concat_uniform) (auto simp: zip_star_frames)
  with assms show ?thesis by (simp add: merge_channels_def zip_star_frames)
qed

lemma div_frame: "k < C \<Longrightarrow> (m * C + k) div C = (m::nat)"
  by simp

lemma shortest_equal:
  assumes "channels \<noteq> []" "\<forall>c\<in>set channels. length c = n"
  shows "shortest channels = n"
proof -
  obtain c cs where "channels = c # cs" using assms by (cases channels) auto
  with assms have "length ` set channels = {n}" by auto
  with assms show ?thesis by (simp add: shortest_def)
qed

lemma slice_from_merge_channels:
  assumes eq: "\<forall>c\<in>set channels. length c = n" and c: "c < length channels"
  shows "slice_from c (length channels) (merge_channels channels) = channels ! c"
proof -
  let ?C = "length channels"
  have ne: "channels \<noteq> []" using c by auto
  have sh: "shortest channels = n" using ne eq by (rule shortest_equal)
  have len: "length (merge_channels channels) = n * ?C"
    by (simp add: length_merge_channels sh)
  have lc: "length (channels ! c) = n" using eq c by simp
  show ?thesis
  proof (cases n)
    case 0
    with len lc show ?thesis by (simp add: slice_from_def)
  next
    case (Suc m)
    define k where "k = ?C - c - 1"
    have k: "k < ?C" "n * ?C - c - 1 = m * ?C + k"
      using c Suc by (simp_all add: k_def)
    have "(m * ?C + k) div ?C = m"
      using k(1) by (rule div_frame)
    then have "(n * ?C - c - 1) div ?C = m"
      by (simp only: k(2))
    then have cnt: "(n * ?C - c - 1) div ?C + 1 = n" using Suc by simp
    have lt: "c < n * ?C" using c Suc by simp
    have "slice_from c ?C (merge_channels channels)
            = map (\<lambda>k. merge_channels channels ! (c + k * ?C)) [0..<n]"
      using lt cnt by (simp add: slice_from_def len)
    also have "\<dots> = map (\<lambda>k. channels ! c ! k) [0..<n]"
    proof (rule map_cong [OF refl])
      fix k assume "k \<in> set [0..<n]"
      then have "k < shortest channels" by (simp add: sh)
      from nth_merge_channels [OF this c]
      show "merge_channels channels ! (c + k * ?C) = channels ! c ! k"
        by (simp add: add.commute)
    qed
    also have "\<dots> = channels ! c"
      using lc by (metis map_nth)
    finally show ?thesis .
  qed
qed

text \<open>
  C4: for every list of channels that all have the same length, de-interleaving the
  interleaved samples with the number of channels gives back exactly the list of channels:
  \<^verbatim>\<open>separate_channels(merge_channels(channels), len(channels)) == channels\<close>.
  The empty list of channels and channels of length zero are included.
\<close>

theorem separate_merge_roundtrip:
  assumes "\<forall>c\<in>set channels. length c = n"
  shows "separate_channels (merge_channels channels) (length channels) = channels"
proof -
  have "map (\<lambda>i. slice_from i (length channels) (merge_channels channels)) [0..<length channels]
          = map (\<lambda>i. channels ! i) [0..<length channels]"
    using assms by (intro map_cong [OF refl] slice_from_merge_channels) auto
  then show ?thesis by (simp add: separate_channels_def map_nth)
qed

theorem separate_merge_roundtrip_witness:
  "length [1, 2, 3 :: real] = 3 \<and> length [4, 5, 6 :: real] = 3 \<and>
   merge_channels [[1, 2, 3], [4, 5, 6]] = [1, 4, 2, 5, 3, 6] \<and>
   separate_channels [1, 4, 2, 5, 3, 6] 2 = [[1, 2, 3], [4, 5, 6]]"
proof -
  have m: "merge_channels [[1, 2, 3], [4, 5, 6]] = [1, 4, 2, 5, 3, 6]"
    by (simp add: merge_channels_def zip_star.simps)
  have h: "\<forall>c\<in>set [[1, 2, 3], [4, 5, 6 :: real]]. length c = 3" by simp
  from separate_merge_roundtrip [OF h] m h show ?thesis by (simp add: numeral_2_eq_2)
qed

text \<open>
  C10: \<^verbatim>\<open>merge_channels\<close> has no error path, and \<^verbatim>\<open>zip\<close> stops at the shortest channel.
  For a non-empty list of \<open>C\<close> channels whose shortest channel has length \<open>L\<close> (in
  particular when the lengths are not all equal), the result has exactly \<open>C * L\<close> samples,
  sample \<open>i * C + c\<close> is frame \<open>i\<close> of channel \<open>c\<close>, and the result is the same as
  interleaving the channels cut to their first \<open>L\<close> frames.
\<close>

theorem merge_channels_truncates:
  assumes "channels \<noteq> []"
  shows "length (merge_channels channels) = length channels * Min (length ` set channels) \<and>
         (\<forall>i < Min (length ` set channels). \<forall>c < length channels.
            merge_channels channels ! (i * length channels + c) = channels ! c ! i) \<and>
         merge_channels channels = merge_channels (map (take (Min (length ` set channels))) channels)"
proof -
  let ?L = "Min (length ` set channels)"
  have sh: "shortest channels = ?L" using assms by (simp add: shortest_def)
  have tk: "shortest (map (take ?L) channels) = ?L"
  proof (rule shortest_equal)
    show "map (take ?L) channels \<noteq> []" using assms by simp
    have "?L \<le> length c" if "c \<in> set channels" for c
      using that by (intro Min_le) auto
    then show "\<forall>c\<in>set (map (take ?L) channels). length c = ?L"
      by (auto simp: min_absorb2)
  qed
  have "zip_star channels = zip_star (map (take ?L) channels)"
    by (simp add: zip_star_frames sh tk)
  then have same: "merge_channels channels = merge_channels (map (take ?L) channels)"
    by (simp only: merge_channels_def)
  have len: "length (merge_channels channels) = length channels * ?L"
    by (simp add: length_merge_channels sh)
  have idx: "\<forall>i < ?L. \<forall>c < length channels.
      merge_channels channels ! (i * length channels + c) = channels ! c ! i"
    using nth_merge_channels [of _ channels] by (simp add: sh)
  from len idx same show ?thesis by blast
qed

theorem merge_channels_truncates_witness:
  "[[1, 2, 3], [4, 5 :: real]] \<noteq> [] \<and> Min (length ` set [[1, 2, 3], [4, 5 :: real]]) = 2 \<and>
   merge_channels [[1, 2, 3], [4, 5]] = [1, 4, 2, 5] \<and>
   length (merge_channels [[1, 2, 3], [4, 5]]) = 2 * 2"
proof -
  have h: "[[1, 2, 3], [4, 5 :: real]] \<noteq> []" by simp
  have m: "merge_channels [[1, 2, 3], [4, 5]] = [1, 4, 2, 5]"
    by (simp add: merge_channels_def zip_star.simps)
  have mn: "Min (length ` set [[1, 2, 3], [4, 5 :: real]]) = 2" by simp
  from merge_channels_truncates [OF h]
  have "length (merge_channels [[1, 2, 3], [4, 5]])
          = length [[1, 2, 3], [4, 5 :: real]] * Min (length ` set [[1, 2, 3], [4, 5 :: real]])"
    by (rule conjunct1)
  with h m mn show ?thesis by simp
qed



section \<open>Properties of rounding to \<^verbatim>\<open>float64\<close>\<close>

subsection \<open>Rounding to an integer\<close>

lemma round_half_even_bounds: "\<lfloor>x\<rfloor> \<le> round_half_even x \<and> round_half_even x \<le> \<lfloor>x\<rfloor> + 1"
  by (simp add: round_half_even_def Let_def)


lemma round_half_even_of_int [simp]: "round_half_even (of_int n) = n"
  by (simp add: round_half_even_def)

lemma round_half_even_mono:
  assumes "x \<le> y"
  shows "round_half_even x \<le> round_half_even y"
proof (cases "\<lfloor>x\<rfloor> = \<lfloor>y\<rfloor>")
  case True
  with assms show ?thesis
    unfolding round_half_even_def Let_def by (auto; linarith)
next
  case False
  with assms have "\<lfloor>x\<rfloor> + 1 \<le> \<lfloor>y\<rfloor>"
    using floor_mono [OF assms] by linarith
  with round_half_even_bounds [of x] round_half_even_bounds [of y] show ?thesis
    by linarith
qed

lemma round_half_even_minus: "round_half_even (- x) = - round_half_even x"
proof (cases "x \<in> \<int>")
  case True
  then obtain n where "x = of_int n" by (auto elim: Ints_cases)
  then have "- x = of_int (- n)" by simp
  then show ?thesis using \<open>x = of_int n\<close> by (simp only: round_half_even_of_int)
next
  case False
  have nz: "x \<noteq> of_int \<lfloor>x\<rfloor>"
    using False by (metis Ints_of_int)
  then have f: "\<lfloor>- x\<rfloor> = - \<lfloor>x\<rfloor> - 1"
    by (simp add: floor_minus ceiling_altdef)
  show ?thesis
    using nz unfolding round_half_even_def Let_def f by (auto; linarith?)
qed

subsection \<open>The exponent\<close>

lemma f64_search_spec:
  assumes "- 1022 \<le> e0"
  shows "- 1022 \<le> f64_search e0 x \<and> f64_search e0 x \<le> e0 \<and>
         (- 1022 < f64_search e0 x \<longrightarrow> 2 powi (f64_search e0 x) \<le> \<bar>x\<bar>) \<and>
         (f64_search e0 x < e0 \<longrightarrow> \<bar>x\<bar> < 2 powi (f64_search e0 x + 1))"
  using assms
proof (induction e0 x rule: f64_search.induct)
  case (1 e x)
  show ?case
  proof (cases "e \<le> - 1022")
    case True
    with 1(2) show ?thesis by (subst (1 2 3 4 5 6) f64_search.simps) simp
  next
    case ne: False
    show ?thesis
    proof (cases "2 powi e \<le> \<bar>x\<bar>")
      case True
      with ne show ?thesis by (subst (1 2 3 4 5 6) f64_search.simps) simp
    next
      case False
      with ne have eq: "f64_search e x = f64_search (e - 1) x"
        by (subst f64_search.simps) simp
      from ne have "- 1022 \<le> e - 1" by simp
      from 1(1) [OF ne False this]
      have ih: "- 1022 \<le> f64_search (e - 1) x" "f64_search (e - 1) x \<le> e - 1"
        "- 1022 < f64_search (e - 1) x \<longrightarrow> 2 powi (f64_search (e - 1) x) \<le> \<bar>x\<bar>"
        "f64_search (e - 1) x < e - 1 \<longrightarrow> \<bar>x\<bar> < 2 powi (f64_search (e - 1) x + 1)"
        by blast+
      have "\<bar>x\<bar> < 2 powi (f64_search (e - 1) x + 1)"
      proof (cases "f64_search (e - 1) x < e - 1")
        case True
        with ih(4) show ?thesis by blast
      next
        case False
        with ih(2) have "f64_search (e - 1) x + 1 = e" by simp
        with \<open>\<not> 2 powi e \<le> \<bar>x\<bar>\<close> show ?thesis by simp
      qed
      with ih show ?thesis unfolding eq by simp
    qed
  qed
qed

lemma f64_exponent_range: "- 1022 \<le> f64_exponent x \<and> f64_exponent x \<le> 1023"
  using f64_search_spec [of 1023 x] by (simp add: f64_exponent_def)

lemma f64_exponent_lower: "- 1022 < f64_exponent x \<Longrightarrow> 2 powi (f64_exponent x) \<le> \<bar>x\<bar>"
  using f64_search_spec [of 1023 x] by (simp add: f64_exponent_def)

lemma f64_exponent_upper: "f64_exponent x < 1023 \<Longrightarrow> \<bar>x\<bar> < 2 powi (f64_exponent x + 1)"
  using f64_search_spec [of 1023 x] by (simp add: f64_exponent_def)


subsection \<open>The nearest significand\<close>

lemma p2_mono: "a \<le> b \<Longrightarrow> (2::real) powi a \<le> 2 powi b"
  by (rule power_int_increasing) simp_all

lemma p2_add: "(2::real) powi (a + b) = 2 powi a * 2 powi b"
  by (simp add: power_int_add)

lemma p2_diff: "(2::real) powi (a - b) = 2 powi a / 2 powi b"
  by (simp add: power_int_diff)

lemma f64_search_minus: "f64_search e (- x) = f64_search e x"
proof (induction e x rule: f64_search.induct)
  case (1 e x)
  show ?case
  proof (cases "e \<le> - 1022 \<or> 2 powi e \<le> \<bar>x\<bar>")
    case True
    then show ?thesis by (subst (1 2) f64_search.simps) auto
  next
    case False
    with 1 have "f64_search (e - 1) (- x) = f64_search (e - 1) x" by simp
    with False show ?thesis by (subst (1 2) f64_search.simps) auto
  qed
qed

lemma f64_exponent_minus: "f64_exponent (- x) = f64_exponent x"
  by (simp add: f64_exponent_def f64_search_minus)

lemma f64_exponent_mono:
  assumes "\<bar>x\<bar> \<le> \<bar>y\<bar>"
  shows "f64_exponent x \<le> f64_exponent y"
proof (rule ccontr)
  assume "\<not> f64_exponent x \<le> f64_exponent y"
  then have lt: "f64_exponent y < f64_exponent x" by simp
  with f64_exponent_range [of y] have "- 1022 < f64_exponent x" by simp
  then have lo: "2 powi (f64_exponent x) \<le> \<bar>x\<bar>" by (rule f64_exponent_lower)
  from lt f64_exponent_range [of x] have "f64_exponent y < 1023" by simp
  then have "\<bar>y\<bar> < 2 powi (f64_exponent y + 1)" by (rule f64_exponent_upper)
  also have "\<dots> \<le> 2 powi (f64_exponent x)" using lt by (intro p2_mono) simp
  finally show False using lo assms by simp
qed

lemma round_half_even_0 [simp]: "round_half_even 0 = 0"
  using round_half_even_of_int [of 0] by simp

lemma f64_nearest_eq:
  "f64_nearest x
     = real_of_int (round_half_even (x / 2 powi (f64_exponent x - 52))) * 2 powi (f64_exponent x - 52)"
  by (simp add: f64_nearest_def Let_def)

lemma p2_split:
  "(2::real) powi (e + 1) = 2 ^ 53 * 2 powi (e - 52)"
  "(2::real) powi e = 2 ^ 52 * 2 powi (e - 52)"
proof -
  have a: "e + 1 = 53 + (e - 52)" and b: "e = 52 + (e - 52)" by simp_all
  have "(2::real) powi (e + 1) = 2 powi 53 * 2 powi (e - 52)"
    by (subst a) (rule p2_add)
  then show "(2::real) powi (e + 1) = 2 ^ 53 * 2 powi (e - 52)" by simp
  have "(2::real) powi e = 2 powi 52 * 2 powi (e - 52)"
    by (subst b) (rule p2_add)
  then show "(2::real) powi e = 2 ^ 52 * 2 powi (e - 52)" by simp
qed

lemma f64_nearest_minus: "f64_nearest (- x) = - f64_nearest x"
  by (simp add: f64_nearest_eq f64_exponent_minus round_half_even_minus)

lemma f64_nearest_nonneg:
  assumes "0 \<le> x"
  shows "0 \<le> f64_nearest x"
proof -
  have "0 \<le> x / 2 powi (f64_exponent x - 52)" using assms by simp
  from round_half_even_mono [OF this] have "0 \<le> round_half_even (x / 2 powi (f64_exponent x - 52))"
    by simp
  then show ?thesis by (simp add: f64_nearest_eq)
qed

lemma f64_nearest_le_p2:
  assumes "0 \<le> x" "f64_exponent x < 1023"
  shows "f64_nearest x \<le> 2 powi (f64_exponent x + 1)"
proof -
  let ?q = "f64_exponent x - 52"
  have "x < 2 powi (f64_exponent x + 1)"
    using f64_exponent_upper [OF assms(2)] assms(1) by simp
  also have "\<dots> = 2 ^ 53 * 2 powi ?q" by (rule p2_split(1))
  finally have "x / 2 powi ?q \<le> real_of_int (2 ^ 53)"
    by (simp add: pos_divide_le_eq)
  from round_half_even_mono [OF this]
  have "round_half_even (x / 2 powi ?q) \<le> 2 ^ 53" by (simp only: round_half_even_of_int)
  then have "real_of_int (round_half_even (x / 2 powi ?q)) \<le> real_of_int (2 ^ 53)"
    by (simp only: of_int_le_iff)
  then have "real_of_int (round_half_even (x / 2 powi ?q)) * 2 powi ?q \<le> real_of_int (2 ^ 53) * 2 powi ?q"
    by (intro mult_right_mono) simp_all
  then have "f64_nearest x \<le> 2 ^ 53 * 2 powi ?q"
    by (simp add: f64_nearest_eq)
  also have "\<dots> = 2 powi (f64_exponent x + 1)" by (rule p2_split(1) [symmetric])
  finally show ?thesis .
qed

lemma f64_nearest_ge_p2:
  assumes "0 \<le> x" "- 1022 < f64_exponent x"
  shows "2 powi (f64_exponent x) \<le> f64_nearest x"
proof -
  let ?q = "f64_exponent x - 52"
  have "2 ^ 52 * 2 powi ?q = (2::real) powi (f64_exponent x)" by (rule p2_split(2) [symmetric])
  also have "\<dots> \<le> x"
    using f64_exponent_lower [OF assms(2)] assms(1) by simp
  finally have "real_of_int (2 ^ 52) \<le> x / 2 powi ?q"
    by (simp add: pos_le_divide_eq)
  from round_half_even_mono [OF this]
  have "2 ^ 52 \<le> round_half_even (x / 2 powi ?q)" by (simp only: round_half_even_of_int)
  then have "real_of_int (2 ^ 52) \<le> real_of_int (round_half_even (x / 2 powi ?q))"
    by (simp only: of_int_le_iff)
  then have "real_of_int (2 ^ 52) * 2 powi ?q \<le> real_of_int (round_half_even (x / 2 powi ?q)) * 2 powi ?q"
    by (intro mult_right_mono) simp_all
  then have "2 ^ 52 * 2 powi ?q \<le> f64_nearest x"
    by (simp add: f64_nearest_eq)
  moreover have "2 ^ 52 * 2 powi ?q = (2::real) powi (f64_exponent x)"
    by (rule p2_split(2) [symmetric])
  ultimately show ?thesis by simp
qed

lemma f64_nearest_mono_nonneg:
  assumes "0 \<le> x" "x \<le> y"
  shows "f64_nearest x \<le> f64_nearest y"
proof -
  have y: "0 \<le> y" using assms by simp
  have le: "f64_exponent x \<le> f64_exponent y"
    using assms by (intro f64_exponent_mono) simp
  show ?thesis
  proof (cases "f64_exponent x = f64_exponent y")
    case True
    have "x / 2 powi (f64_exponent y - 52) \<le> y / 2 powi (f64_exponent y - 52)"
      using assms(2) by (simp add: divide_right_mono)
    from round_half_even_mono [OF this]
    have "real_of_int (round_half_even (x / 2 powi (f64_exponent y - 52))) * 2 powi (f64_exponent y - 52)
          \<le> real_of_int (round_half_even (y / 2 powi (f64_exponent y - 52))) * 2 powi (f64_exponent y - 52)"
      by (intro mult_right_mono) simp_all
    then show ?thesis
      by (simp add: f64_nearest_eq True)
  next
    case False
    with le have lt: "f64_exponent x < f64_exponent y" by simp
    with f64_exponent_range [of y] have "f64_exponent x < 1023" by simp
    from f64_nearest_le_p2 [OF assms(1) this]
    have "f64_nearest x \<le> 2 powi (f64_exponent x + 1)" .
    also have "\<dots> \<le> 2 powi (f64_exponent y)" using lt by (intro p2_mono) simp
    also have "\<dots> \<le> f64_nearest y"
      using lt f64_exponent_range [of x] by (intro f64_nearest_ge_p2 [OF y]) simp
    finally show ?thesis .
  qed
qed

lemma f64_nearest_mono:
  assumes "x \<le> y"
  shows "f64_nearest x \<le> f64_nearest y"
proof (cases "0 \<le> x")
  case True
  then show ?thesis using assms by (rule f64_nearest_mono_nonneg)
next
  case neg: False
  show ?thesis
  proof (cases "0 \<le> y")
    case True
    have "f64_nearest x = - f64_nearest (- x)" by (simp add: f64_nearest_minus)
    moreover have "0 \<le> f64_nearest (- x)" using neg by (intro f64_nearest_nonneg) simp
    moreover have "0 \<le> f64_nearest y" using True by (rule f64_nearest_nonneg)
    ultimately show ?thesis by simp
  next
    case False
    then have "f64_nearest (- y) \<le> f64_nearest (- x)"
      using assms by (intro f64_nearest_mono_nonneg) simp_all
    then show ?thesis by (simp add: f64_nearest_minus)
  qed
qed

lemma f64_nearest_exact:
  assumes "\<bar>m\<bar> < 2 ^ 53" "- 1074 \<le> q"
  shows "f64_nearest (of_int m * 2 powi q) = of_int m * 2 powi q"
proof -
  let ?x = "real_of_int m * 2 powi q"
  let ?Q = "f64_exponent ?x - 52"
  have "?Q \<le> q"
  proof (cases "- 1022 < f64_exponent ?x")
    case True
    then have "2 powi (f64_exponent ?x) \<le> \<bar>?x\<bar>" by (rule f64_exponent_lower)
    also have "\<bar>?x\<bar> = real_of_int \<bar>m\<bar> * 2 powi q" by (simp add: abs_mult)
    also have "\<dots> < 2 powi 53 * 2 powi q"
    proof -
      have "real_of_int \<bar>m\<bar> < real_of_int (2 ^ 53)" using assms(1) by (simp only: of_int_less_iff)
      then show ?thesis by (intro mult_strict_right_mono) simp_all
    qed
    also have "\<dots> = 2 powi (53 + q)" by (simp add: p2_add)
    finally have lt: "(2::real) powi (f64_exponent ?x) < 2 powi (53 + q)" .
    have "f64_exponent ?x < 53 + q"
    proof (rule ccontr)
      assume "\<not> f64_exponent ?x < 53 + q"
      then have "(2::real) powi (53 + q) \<le> 2 powi (f64_exponent ?x)"
        by (intro p2_mono) simp
      with lt show False by simp
    qed
    then show ?thesis by simp
  next
    case False
    with f64_exponent_range [of ?x] assms(2) show ?thesis by simp
  qed
  then obtain k where k: "q = ?Q + int k"
    by (metis zle_iff_zadd)
  have "?x / 2 powi ?Q = real_of_int m * (2 powi q / 2 powi ?Q)" by simp
  also have "2 powi q / 2 powi ?Q = (2::real) powi (q - ?Q)" by (simp only: p2_diff)
  also have "q - ?Q = int k" using k by simp
  also have "real_of_int m * 2 powi (int k) = of_int (m * 2 ^ k)" by simp
  finally have "round_half_even (?x / 2 powi ?Q) = m * 2 ^ k"
    by (simp only: round_half_even_of_int)
  then have "f64_nearest ?x = of_int (m * 2 ^ k) * 2 powi ?Q"
    by (simp add: f64_nearest_eq)
  also have "\<dots> = real_of_int m * (2 powi (int k) * 2 powi ?Q)" by simp
  also have "2 powi (int k) * 2 powi ?Q = (2::real) powi q"
    unfolding p2_add [symmetric] using k by (simp add: add.commute)
  finally show ?thesis .
qed



subsection \<open>Rounding to \<^verbatim>\<open>float64\<close>\<close>

lemma round_f64_eq:
  "round_f64 x =
     (if 2 ^ 1024 \<le> f64_nearest x then PInf
      else if f64_nearest x \<le> - (2 ^ 1024) then NInf else Fin (f64_nearest x))"
  by (simp add: round_f64_def Let_def)

lemma f64_nearest_p2: "- 1074 \<le> q \<Longrightarrow> f64_nearest (2 powi q) = 2 powi q"
  using f64_nearest_exact [of 1 q] by simp

lemma f64_nearest_abs: "\<bar>f64_nearest x\<bar> = f64_nearest \<bar>x\<bar>"
proof (cases "0 \<le> x")
  case True
  then show ?thesis using f64_nearest_nonneg [of x] by simp
next
  case False
  then have "0 \<le> f64_nearest (- x)" by (intro f64_nearest_nonneg) simp
  with False show ?thesis by (simp add: f64_nearest_minus)
qed

lemma round_f64_exact:
  assumes "\<bar>m\<bar> < 2 ^ 53" "- 1074 \<le> q" "q \<le> 971"
  shows "round_f64 (of_int m * 2 powi q) = Fin (of_int m * 2 powi q)"
proof -
  let ?x = "real_of_int m * 2 powi q"
  have n: "f64_nearest ?x = ?x" using assms(1,2) by (rule f64_nearest_exact)
  have "real_of_int \<bar>m\<bar> < real_of_int (2 ^ 53)" using assms(1) by (simp only: of_int_less_iff)
  then have "real_of_int \<bar>m\<bar> * 2 powi q < real_of_int (2 ^ 53) * 2 powi q"
    by (intro mult_strict_right_mono) simp_all
  also have "real_of_int (2 ^ 53) * (2::real) powi q \<le> real_of_int (2 ^ 53) * 2 powi 971"
    using assms(3) by (intro mult_left_mono p2_mono) simp_all
  also have "\<dots> = 2 ^ 1024" by simp
  finally have "\<bar>?x\<bar> < 2 ^ 1024" by (simp add: abs_mult)
  then have "\<not> 2 ^ 1024 \<le> ?x" "\<not> ?x \<le> - (2 ^ 1024)" by linarith+
  then show ?thesis unfolding round_f64_eq n by (simp only: if_False)
qed

lemma round_f64_of_int: "\<bar>n\<bar> < 2 ^ 53 \<Longrightarrow> round_f64 (of_int n) = Fin (of_int n)"
  using round_f64_exact [of n 0] by simp

lemma round_f64_0 [simp]: "round_f64 0 = Fin 0"
  using round_f64_of_int [of 0] by simp

lemma round_f64_1 [simp]: "round_f64 1 = Fin 1"
  using round_f64_of_int [of 1] by simp

lemma round_f64_overflow:
  assumes "2 ^ 1024 \<le> x"
  shows "round_f64 x = PInf"
proof -
  have "f64_nearest (2 powi 1024) = 2 powi 1024" by (rule f64_nearest_p2) simp
  then have "f64_nearest (2 ^ 1024) = 2 ^ 1024" by simp
  with f64_nearest_mono [OF assms] have "2 ^ 1024 \<le> f64_nearest x" by simp
  then show ?thesis by (simp add: round_f64_eq)
qed

lemma round_f64_bounded:
  assumes "\<bar>x\<bar> \<le> real_of_int m * 2 powi q" "\<bar>m\<bar> < 2 ^ 53" "- 1074 \<le> q" "q \<le> 971"
  shows "round_f64 x = Fin (f64_nearest x) \<and> \<bar>f64_nearest x\<bar> \<le> real_of_int m * 2 powi q"
proof -
  let ?b = "real_of_int m * 2 powi q"
  have bn: "f64_nearest ?b = ?b" using assms(2,3) by (rule f64_nearest_exact)
  have "f64_nearest \<bar>x\<bar> \<le> f64_nearest ?b" using assms(1) by (rule f64_nearest_mono)
  then have le: "\<bar>f64_nearest x\<bar> \<le> ?b" by (simp add: f64_nearest_abs bn)
  have "round_f64 ?b = Fin ?b" using assms(2-4) by (rule round_f64_exact)
  then have "?b < 2 ^ 1024"
    by (simp add: round_f64_eq bn split: if_splits)
  with le have "\<not> 2 ^ 1024 \<le> f64_nearest x" "\<not> f64_nearest x \<le> - (2 ^ 1024)" by linarith+
  then have "round_f64 x = Fin (f64_nearest x)" unfolding round_f64_eq by (simp only: if_False)
  with le show ?thesis by simp
qed


lemma round_f64_nonneg:
  assumes "0 \<le> x" "round_f64 x = Fin v"
  shows "0 \<le> v"
  using assms f64_nearest_nonneg [of x] by (auto simp: round_f64_eq split: if_splits)

lemma round_f64_minus_Fin:
  assumes "round_f64 x = Fin v"
  shows "round_f64 (- x) = Fin (- v)"
  using assms by (auto simp: round_f64_eq f64_nearest_minus split: if_splits)




lemma is_f64_of_int: "\<bar>n\<bar> < 2 ^ 53 \<Longrightarrow> is_f64 (of_int n)"
  by (simp add: is_f64_def round_f64_of_int)

lemma is_f64_minus: "is_f64 x \<Longrightarrow> is_f64 (- x)"
  by (simp add: is_f64_def round_f64_minus_Fin)

lemma is_f64_scaled: "\<bar>m\<bar> < 2 ^ 53 \<Longrightarrow> - 1074 \<le> q \<Longrightarrow> q \<le> 971 \<Longrightarrow> is_f64 (of_int m * 2 powi q)"
  by (simp add: is_f64_def round_f64_exact)

text \<open>Evaluating the rounding at a number whose exponent is known.\<close>

lemma f64_exponent_eqI:
  assumes "2 powi e \<le> \<bar>x\<bar>" "\<bar>x\<bar> < 2 powi (e + 1)" "- 1022 \<le> e" "e \<le> 1023"
  shows "f64_exponent x = e"
proof (rule ccontr)
  assume ne: "f64_exponent x \<noteq> e"
  show False
  proof (cases "f64_exponent x < e")
    case True
    with assms(4) have "f64_exponent x < 1023" by simp
    then have "\<bar>x\<bar> < 2 powi (f64_exponent x + 1)" by (rule f64_exponent_upper)
    also have "\<dots> \<le> 2 powi e" using True by (intro p2_mono) simp
    finally show False using assms(1) by simp
  next
    case False
    with ne have gt: "e < f64_exponent x" by simp
    with assms(3) have "- 1022 < f64_exponent x" by simp
    then have "2 powi (f64_exponent x) \<le> \<bar>x\<bar>" by (rule f64_exponent_lower)
    moreover have "(2::real) powi (e + 1) \<le> 2 powi (f64_exponent x)"
      using gt by (intro p2_mono) simp
    ultimately show False using assms(2) by simp
  qed
qed

lemma f64_nearest_eval:
  assumes "2 powi e \<le> \<bar>x\<bar>" "\<bar>x\<bar> < 2 powi (e + 1)" "- 1022 \<le> e" "e \<le> 1023"
  shows "f64_nearest x = real_of_int (round_half_even (x / 2 powi (e - 52))) * 2 powi (e - 52)"
  by (simp add: f64_nearest_eq f64_exponent_eqI [OF assms])

lemma round_f64_of_nearest:
  assumes "f64_nearest x = v" "\<bar>v\<bar> < 2 ^ 1024"
  shows "round_f64 x = Fin v"
proof -
  from assms(2) have "\<not> 2 ^ 1024 \<le> v" "\<not> v \<le> - (2 ^ 1024)" by linarith+
  then show ?thesis unfolding round_f64_eq assms(1) by (simp only: if_False)
qed


section \<open>Properties of the time axis and the waveforms\<close>

lemma np_arange_Fin:
  assumes "- (2 ^ 63) \<le> \<lceil>s\<rceil>" "\<lceil>s\<rceil> \<le> 2 ^ 63"
  shows "np_arange (Fin s) = Inr (map (\<lambda>i. round_f64 (real i)) [0..<nat \<lceil>s\<rceil>])"
  using assms by (simp add: np_arange_def)

lemma np_arange_not_finite: "stop = PInf \<or> stop = NInf \<or> stop = NaN \<Longrightarrow> np_arange stop = Inl ValueError"
  by (auto simp: np_arange_def)

lemma generate_sample_time_points_Inr:
  assumes "fmul d (Fin 44100) = Fin p" "0 \<le> p" "p \<le> 2 ^ 63"
  shows "generate_sample_time_points d = Inr (map time_point [0..<nat \<lceil>p\<rceil>])"
proof -
  have "- (2 ^ 63) \<le> \<lceil>p\<rceil>" using assms(2) by (simp add: le_ceiling_iff)
  moreover have "\<lceil>p\<rceil> \<le> 2 ^ 63" using assms(3) by (simp add: ceiling_le_iff)
  ultimately have "np_arange (Fin p) = Inr (map (\<lambda>i. round_f64 (real i)) [0..<nat \<lceil>p\<rceil>])"
    by (rule np_arange_Fin)
  then show ?thesis
    using assms(1)
    by (simp add: generate_sample_time_points_def SAMPLING_FREQ_def time_point_def comp_def)
qed

lemma sine_Inr:
  assumes "generate_sample_time_points d = Inr ts"
  shows "sine libm_sin f a d =
           Inr (map (\<lambda>t. fmul a (fsin libm_sin (fmul (fmul (fmul f (Fin 2)) np_pi) t))) ts)"
  using assms by (simp add: sine_def)

lemma sine_Inl:
  assumes "generate_sample_time_points d = Inl e"
  shows "sine libm_sin f a d = Inl e"
  using assms by (simp add: sine_def)

lemma sine_samples_Inr:
  assumes "fmul d (Fin 44100) = Fin p" "0 \<le> p" "p \<le> 2 ^ 63"
  shows "sine libm_sin f a d =
           Inr (map (\<lambda>i. fmul a (fsin libm_sin (sine_arg f i))) [0..<nat \<lceil>p\<rceil>])"
  using generate_sample_time_points_Inr [OF assms]
  by (simp add: sine_Inr sine_arg_def comp_def)

lemma duration_product_nonneg:
  assumes "0 \<le> d" "fmul (Fin d) (Fin 44100) = Fin p"
  shows "0 \<le> p"
proof -
  have "0 \<le> d * 44100" using assms(1) by simp
  moreover have "round_f64 (d * 44100) = Fin p" using assms(2) by simp
  ultimately show ?thesis by (rule round_f64_nonneg)
qed







lemma round_f64_finite:
  assumes "\<bar>x\<bar> \<le> 2 ^ 1023"
  shows "\<exists>v. round_f64 x = Fin v"
proof -
  have "\<bar>x\<bar> \<le> real_of_int (2 ^ 52) * 2 powi 971" using assms by simp
  then have "round_f64 x = Fin (f64_nearest x) \<and> \<bar>f64_nearest x\<bar> \<le> real_of_int (2 ^ 52) * 2 powi 971"
    by (rule round_f64_bounded) simp_all
  then show ?thesis by blast
qed

lemma time_point_0: "time_point 0 = Fin 0"
  by (simp add: time_point_def SAMPLING_FREQ_def)

lemma sine_arg_0:
  assumes "fmul (fmul f (Fin 2)) np_pi = Fin w"
  shows "sine_arg f 0 = Fin 0"
  using assms by (simp add: sine_arg_def time_point_0)

lemma np_pi_exact: "round_f64 (884279719003555 / 2 ^ 48) = Fin (884279719003555 / 2 ^ 48)"
  using round_f64_exact [of 884279719003555 "- 48"] by (simp add: power_int_minus_divide)






lemma fsign_round_f64:
  "fsign (round_f64 x) = Fin (- 1) \<or> fsign (round_f64 x) = Fin 0 \<or> fsign (round_f64 x) = Fin 1"
  by (auto simp: round_f64_eq sgn_real_def)

lemma fmul_fsign:
  assumes "is_f64 a" "s = Fin (- 1) \<or> s = Fin 0 \<or> s = Fin 1"
  shows "fmul (Fin a) s = Fin (- a) \<or> fmul (Fin a) s = Fin 0 \<or> fmul (Fin a) s = Fin a"
proof -
  have "round_f64 a = Fin a" using assms(1) by (simp add: is_f64_def)
  moreover from this have "round_f64 (- a) = Fin (- a)" by (rule round_f64_minus_Fin)
  ultimately show ?thesis using assms(2) by auto
qed

lemma square_samples_Inr:
  assumes "fmul d (Fin 44100) = Fin p" "0 \<le> p" "p \<le> 2 ^ 63"
  shows "square libm_sin f a d =
           Inr (map (\<lambda>i. fmul a (fsign (fmul (Fin 1) (fsin libm_sin (sine_arg f i)))))
                  [0..<nat \<lceil>p\<rceil>])"
  using sine_samples_Inr [OF assms, of libm_sin f "Fin 1"]
  by (simp add: square_def comp_def)

text \<open>
  C9, as stated, fails: at the frequency \<open>2 ^ 1023\<close> the product \<^verbatim>\<open>freq * 2\<close> overflows, the
  argument of \<^verbatim>\<open>np.sin\<close> is NaN, and the sample is NaN, which is none of \<open>- a\<close>, \<open>0\<close>,
  \<open>a\<close>.
\<close>

theorem square_overflow_counterexample:
  "square sin (Fin (2 ^ 1023)) (Fin (1 / 2)) (Fin (1 / 65536)) = Inr [NaN]"
proof -
  have p: "fmul (Fin (1 / 65536)) (Fin 44100) = Fin (11025 / 16384)"
    using round_f64_exact [of 11025 "- 14"] by (simp add: power_int_minus_divide)
  have "square sin (Fin (2 ^ 1023)) (Fin (1 / 2)) (Fin (1 / 65536))
          = Inr (map (\<lambda>i. fmul (Fin (1 / 2)) (fsign (fmul (Fin 1) (fsin sin (sine_arg (Fin (2 ^ 1023)) i)))))
                   [0..<nat \<lceil>11025 / 16384 :: real\<rceil>])"
    using p by (intro square_samples_Inr) simp_all
  moreover have "nat \<lceil>11025 / 16384 :: real\<rceil> = 1" by simp
  moreover have "fmul (Fin (2 ^ 1023)) (Fin 2) = PInf" by (simp add: round_f64_overflow)
  ultimately show ?thesis
    by (simp add: sine_arg_def time_point_0 np_pi_def)
qed

text \<open>
  C9, amended: for every frequency \<open>f\<close>, every finite \<^verbatim>\<open>float64\<close> amplitude \<open>a\<close> and every
  finite duration \<open>d \<ge> 0\<close> whose \<^verbatim>\<open>float64\<close> product with 44100 is finite (and at most
  \<open>2 ^ 63\<close>), \<^verbatim>\<open>square(f, a, d)\<close> returns a signal in which every sample whose argument
  \<^verbatim>\<open>f * 2 * np.pi * t\<close> of \<^verbatim>\<open>np.sin\<close> is finite is one of \<open>- a\<close>, \<open>0\<close>, \<open>a\<close>.
\<close>

theorem square_values:
  assumes "0 \<le> d" "fmul (Fin d) (Fin 44100) = Fin p" "p \<le> 2 ^ 63" "is_f64 a"
  shows "\<exists>ys. square libm_sin f (Fin a) (Fin d) = Inr ys \<and> int (length ys) = \<lceil>p\<rceil> \<and>
           (\<forall>i < length ys. (\<exists>z. sine_arg f i = Fin z) \<longrightarrow>
              ys ! i = Fin (- a) \<or> ys ! i = Fin 0 \<or> ys ! i = Fin a)"
proof -
  let ?ys = "map (\<lambda>i. fmul (Fin a) (fsign (fmul (Fin 1) (fsin libm_sin (sine_arg f i)))))
               [0..<nat \<lceil>p\<rceil>]"
  have nn: "0 \<le> p" using assms(1,2) by (rule duration_product_nonneg)
  then have c: "0 \<le> \<lceil>p\<rceil>" by (simp add: le_ceiling_iff)
  have s: "square libm_sin f (Fin a) (Fin d) = Inr ?ys"
    using assms(2) nn assms(3) by (rule square_samples_Inr)
  have v: "?ys ! i = Fin (- a) \<or> ?ys ! i = Fin 0 \<or> ?ys ! i = Fin a"
    if "i < length ?ys" "\<exists>z. sine_arg f i = Fin z" for i
  proof -
    from that(2) obtain z where z: "sine_arg f i = Fin z" by blast
    have "fsign (fmul (Fin 1) (fsin libm_sin (Fin z))) = Fin (- 1) \<or>
          fsign (fmul (Fin 1) (fsin libm_sin (Fin z))) = Fin 0 \<or>
          fsign (fmul (Fin 1) (fsin libm_sin (Fin z))) = Fin 1"
      using fsign_round_f64 [of "libm_sin z"] by simp
    from fmul_fsign [OF assms(4) this] that(1) z show ?thesis by simp
  qed
  from s c v show ?thesis by (intro exI [of _ ?ys]) simp
qed

theorem square_values_witness:
  "(0 :: real) \<le> 1 / 32768 \<and> fmul (Fin (1 / 32768)) (Fin 44100) = Fin (11025 / 8192) \<and>
   (11025 / 8192 :: real) \<le> 2 ^ 63 \<and> is_f64 (1 / 2) \<and>
   map_sum id length (square sin (Fin (1 / 2)) (Fin (1 / 2)) (Fin (1 / 32768))) = Inr 2 \<and>
   (\<exists>z. sine_arg (Fin (1 / 2)) 1 = Fin z) \<and>
   (projr (square sin (Fin (1 / 2)) (Fin (1 / 2)) (Fin (1 / 32768))) ! 1 = Fin (- (1 / 2)) \<or>
    projr (square sin (Fin (1 / 2)) (Fin (1 / 2)) (Fin (1 / 32768))) ! 1 = Fin 0 \<or>
    projr (square sin (Fin (1 / 2)) (Fin (1 / 2)) (Fin (1 / 32768))) ! 1 = Fin (1 / 2))"
proof -
  have h: "(0 :: real) \<le> 1 / 32768" by simp
  have p: "fmul (Fin (1 / 32768)) (Fin 44100) = Fin (11025 / 8192)"
    using round_f64_exact [of 11025 "- 13"] by (simp add: power_int_minus_divide)
  have b: "(11025 / 8192 :: real) \<le> 2 ^ 63" by simp
  have a: "is_f64 (1 / 2)"
    using is_f64_scaled [of 1 "- 1"] by (simp add: power_int_minus_divide)
  have c: "\<lceil>11025 / 8192 :: real\<rceil> = 2" by (simp add: ceiling_eq_iff)
  have z: "\<exists>z. sine_arg (Fin (1 / 2)) 1 = Fin z"
  proof -
    have "\<bar>1 / 44100 :: real\<bar> \<le> real_of_int 1 * 2 powi 0" by simp
    then have t: "round_f64 (1 / 44100) = Fin (f64_nearest (1 / 44100)) \<and>
        \<bar>f64_nearest (1 / 44100)\<bar> \<le> real_of_int 1 * 2 powi 0"
      by (rule round_f64_bounded) simp_all
    then have t1: "time_point 1 = Fin (f64_nearest (1 / 44100))"
      by (simp add: time_point_def SAMPLING_FREQ_def)
    have "\<bar>884279719003555 / 2 ^ 48 * f64_nearest (1 / 44100)\<bar> \<le> 4 * 1"
      unfolding abs_mult using t by (intro mult_mono) simp_all
    then have "\<bar>884279719003555 / 2 ^ 48 * f64_nearest (1 / 44100)\<bar> \<le> 2 ^ 1023" by simp
    from round_f64_finite [OF this] obtain v
      where v: "round_f64 (884279719003555 / 2 ^ 48 * f64_nearest (1 / 44100)) = Fin v" by blast
    have w: "fmul (fmul (Fin (1 / 2)) (Fin 2)) np_pi = Fin (884279719003555 / 2 ^ 48)"
      using np_pi_exact by (simp add: np_pi_def)
    have "sine_arg (Fin (1 / 2)) 1
            = fmul (Fin (884279719003555 / 2 ^ 48)) (Fin (f64_nearest (1 / 44100)))"
      by (simp only: sine_arg_def w t1)
    also have "\<dots> = round_f64 (884279719003555 / 2 ^ 48 * f64_nearest (1 / 44100))"
      by (simp only: fmul.simps)
    finally show ?thesis using v by simp
  qed
  from square_values [OF h p b a, of sin "Fin (1 / 2)"]
  obtain ys where ys: "square sin (Fin (1 / 2)) (Fin (1 / 2)) (Fin (1 / 32768)) = Inr ys"
    and l: "int (length ys) = \<lceil>11025 / 8192 :: real\<rceil>"
    and v: "\<forall>i < length ys. (\<exists>z. sine_arg (Fin (1 / 2)) i = Fin z) \<longrightarrow>
              ys ! i = Fin (- (1 / 2)) \<or> ys ! i = Fin 0 \<or> ys ! i = Fin (1 / 2)"
    by blast
  from l c have l2: "length ys = 2" by simp
  with v z have "ys ! 1 = Fin (- (1 / 2)) \<or> ys ! 1 = Fin 0 \<or> ys ! 1 = Fin (1 / 2)" by simp
  with ys l2 have
    "map_sum id length (square sin (Fin (1 / 2)) (Fin (1 / 2)) (Fin (1 / 32768))) = Inr 2"
    "projr (square sin (Fin (1 / 2)) (Fin (1 / 2)) (Fin (1 / 32768))) ! 1 = Fin (- (1 / 2)) \<or>
     projr (square sin (Fin (1 / 2)) (Fin (1 / 2)) (Fin (1 / 32768))) ! 1 = Fin 0 \<or>
     projr (square sin (Fin (1 / 2)) (Fin (1 / 2)) (Fin (1 / 32768))) ! 1 = Fin (1 / 2)"
    by simp_all
  with h p b a z show ?thesis by blast
qed


lemma sine_generate_cases:
  "(\<exists>e. generate_sample_time_points d = Inl e \<and> (\<forall>f a. sine libm_sin f a d = Inl e)) \<or>
   (\<exists>ts. generate_sample_time_points d = Inr ts \<and>
      (\<forall>f a. \<exists>ys. sine libm_sin f a d = Inr ys \<and> length ys = length ts))"
  by (cases "generate_sample_time_points d") (simp_all add: sine_def)

lemma add_overtones_samples:
  assumes "generate_sample_time_points d = Inr ts" "length signal = length ts"
  shows "\<exists>ys. add_overtones libm_sin r a d ovs signal = Inr ys \<and> length ys = length ts \<and>
           (\<forall>i < length ts. ys ! i =
              foldl fadd (signal ! i)
                (map (\<lambda>(ff, af). projr (sine libm_sin (fmul r ff) (fmul a af) d) ! i) ovs))"
  using assms(2)
proof (induction ovs arbitrary: signal)
  case Nil
  then show ?case by simp
next
  case (Cons ov ovs)
  obtain ff af where ov: "ov = (ff, af)" by (cases ov)
  obtain ot where ot: "sine libm_sin (fmul r ff) (fmul a af) d = Inr ot" "length ot = length ts"
    using assms(1) by (auto simp: sine_def)
  have len: "length (np_add signal ot) = length ts"
    using Cons.prems ot(2) by (simp add: np_add_def)
  have nth: "np_add signal ot ! i = fadd (signal ! i) (ot ! i)" if "i < length ts" for i
    using that Cons.prems ot(2) by (simp add: np_add_def)
  from Cons.IH [OF len] obtain ys
    where ys: "add_overtones libm_sin r a d ovs (np_add signal ot) = Inr ys" "length ys = length ts"
      "\<forall>i < length ts. ys ! i =
          foldl fadd (np_add signal ot ! i)
            (map (\<lambda>(ff, af). projr (sine libm_sin (fmul r ff) (fmul a af) d) ! i) ovs)"
    by blast
  have "add_overtones libm_sin r a d (ov # ovs) signal = Inr ys"
    by (simp add: ov ot(1) ys(1))
  moreover have "\<forall>i < length ts. ys ! i =
      foldl fadd (signal ! i)
        (map (\<lambda>(ff, af). projr (sine libm_sin (fmul r ff) (fmul a af) d) ! i) (ov # ovs))"
    using ys(3) nth by (simp add: ov ot(1))
  ultimately show ?case using ys(2) by blast
qed

text \<open>
  C8: \<^verbatim>\<open>sine_with_overtones(220, 1.0, [(2, 0.5)], d)\<close> is, for every \<open>d\<close>, the elementwise
  \<^verbatim>\<open>float64\<close> sum of \<^verbatim>\<open>sine(220, 1.0, d)\<close> and \<^verbatim>\<open>sine(440, 0.5, d)\<close> (and raises what they
  raise): both sides are the same operations in the same order, and the two products
  \<open>220 * 2\<close> and \<open>1 * (1 / 2)\<close>, which are exact, are the only arithmetic the equality
  needs. In general, when the fundamental \<^verbatim>\<open>sine(r, a, d)\<close> raises, so does
  \<^verbatim>\<open>sine_with_overtones\<close>; otherwise the result has the length of the fundamental, and its
  sample \<open>i\<close> is the fundamental's sample with the samples of the overtones
  \<^verbatim>\<open>sine(r * ff, a * af, d)\<close> added from the left, in the order of \<^verbatim>\<open>overtones\<close>.
\<close>

theorem sine_with_overtones_sum:
  "sine_with_overtones libm_sin (Fin 220) (Fin 1) [(Fin 2, Fin (1 / 2))] d =
     (case sine libm_sin (Fin 220) (Fin 1) d of
        Inl e \<Rightarrow> Inl e
      | Inr s \<Rightarrow>
          (case sine libm_sin (Fin 440) (Fin (1 / 2)) d of
             Inl e \<Rightarrow> Inl e
           | Inr ot \<Rightarrow> Inr (map2 fadd s ot))) \<and>
   (\<forall>e. sine libm_sin r a d = Inl e \<longrightarrow> sine_with_overtones libm_sin r a ovs d = Inl e) \<and>
   (\<forall>s. sine libm_sin r a d = Inr s \<longrightarrow>
      (\<exists>ys. sine_with_overtones libm_sin r a ovs d = Inr ys \<and> length ys = length s \<and>
         (\<forall>i < length s. ys ! i =
            foldl fadd (s ! i)
              (map (\<lambda>(ff, af). projr (sine libm_sin (fmul r ff) (fmul a af) d) ! i) ovs))))"
proof (intro conjI allI impI)
  have f: "fmul (Fin 220) (Fin 2) = Fin 440"
    using round_f64_of_int [of 440] by simp
  have h: "fmul (Fin 1) (Fin (1 / 2)) = Fin (1 / 2)"
    using round_f64_exact [of 1 "- 1"] by (simp add: power_int_minus_divide)
  show "sine_with_overtones libm_sin (Fin 220) (Fin 1) [(Fin 2, Fin (1 / 2))] d =
     (case sine libm_sin (Fin 220) (Fin 1) d of
        Inl e \<Rightarrow> Inl e
      | Inr s \<Rightarrow>
          (case sine libm_sin (Fin 440) (Fin (1 / 2)) d of
             Inl e \<Rightarrow> Inl e
           | Inr ot \<Rightarrow> Inr (map2 fadd s ot)))"
    unfolding sine_with_overtones_def add_overtones.simps f h np_add_def
    by (simp split: sum.splits)
next
  fix e assume "sine libm_sin r a d = Inl e"
  then show "sine_with_overtones libm_sin r a ovs d = Inl e"
    by (simp add: sine_with_overtones_def)
next
  fix s assume s: "sine libm_sin r a d = Inr s"
  then obtain ts where ts: "generate_sample_time_points d = Inr ts" "length s = length ts"
    by (auto simp: sine_def split: sum.splits)
  from add_overtones_samples [OF ts(1) ts(2), of libm_sin r a ovs] s ts(2)
  show "\<exists>ys. sine_with_overtones libm_sin r a ovs d = Inr ys \<and> length ys = length s \<and>
         (\<forall>i < length s. ys ! i =
            foldl fadd (s ! i)
              (map (\<lambda>(ff, af). projr (sine libm_sin (fmul r ff) (fmul a af) d) ! i) ovs))"
    by (simp add: sine_with_overtones_def)
qed

theorem sine_with_overtones_sum_witness:
  "sine sin (Fin 220) (Fin 1) (Fin (1 / 65536)) = Inr [Fin 0] \<and>
   sine sin (Fin 440) (Fin (1 / 2)) (Fin (1 / 65536)) = Inr [Fin 0] \<and>
   sine_with_overtones sin (Fin 220) (Fin 1) [(Fin 2, Fin (1 / 2))] (Fin (1 / 65536)) = Inr [Fin 0] \<and>
   sine sin (Fin 220) (Fin 1) PInf = Inl ValueError \<and>
   sine_with_overtones sin (Fin 220) (Fin 1) [(Fin 2, Fin (1 / 2))] PInf = Inl ValueError"
proof -
  have p: "fmul (Fin (1 / 65536)) (Fin 44100) = Fin (11025 / 16384)"
    using round_f64_exact [of 11025 "- 14"] by (simp add: power_int_minus_divide)
  have n: "nat \<lceil>11025 / 16384 :: real\<rceil> = 1" by simp
  have fin: "\<exists>w. fmul (fmul (Fin f) (Fin 2)) np_pi = Fin w" if "\<bar>f\<bar> \<le> 1000" for f
  proof -
    have "\<bar>f * 2\<bar> \<le> 2 ^ 1023" using that by simp
    from round_f64_bounded [of "f * 2" 2000 0] that
    have b: "round_f64 (f * 2) = Fin (f64_nearest (f * 2))" "\<bar>f64_nearest (f * 2)\<bar> \<le> 2000"
      by simp_all
    have "\<bar>f64_nearest (f * 2) * (884279719003555 / 2 ^ 48)\<bar> \<le> 2000 * 4"
      unfolding abs_mult using b(2) by (intro mult_mono) simp_all
    then have "\<bar>f64_nearest (f * 2) * (884279719003555 / 2 ^ 48)\<bar> \<le> 2 ^ 1023" by simp
    from round_f64_finite [OF this] b(1) show ?thesis by (simp add: np_pi_def)
  qed
  have s0: "sine sin (Fin f) (Fin a) (Fin (1 / 65536)) = Inr [Fin 0]" if "\<bar>f\<bar> \<le> 1000" for f a
  proof -
    from fin [OF that] obtain w where "fmul (fmul (Fin f) (Fin 2)) np_pi = Fin w" by blast
    then have "sine_arg (Fin f) 0 = Fin 0" by (rule sine_arg_0)
    then show ?thesis
      using sine_samples_Inr [OF p, of sin "Fin f" "Fin a"] n by simp
  qed
  have a: "sine sin (Fin 220) (Fin 1) (Fin (1 / 65536)) = Inr [Fin 0]" by (rule s0) simp
  have b: "sine sin (Fin 440) (Fin (1 / 2)) (Fin (1 / 65536)) = Inr [Fin 0]" by (rule s0) simp
  have e: "sine sin (Fin 220) (Fin 1) PInf = Inl ValueError"
    by (simp add: sine_def generate_sample_time_points_def SAMPLING_FREQ_def np_arange_def)
  from sine_with_overtones_sum [of sin "Fin (1 / 65536)"] a b
  have c: "sine_with_overtones sin (Fin 220) (Fin 1) [(Fin 2, Fin (1 / 2))] (Fin (1 / 65536)) = Inr [Fin 0]"
    by simp
  from sine_with_overtones_sum [of sin PInf "Fin 220" "Fin 1" "[(Fin 2, Fin (1 / 2))]"] e
  have d: "sine_with_overtones sin (Fin 220) (Fin 1) [(Fin 2, Fin (1 / 2))] PInf = Inl ValueError"
    by blast
  from a b c d e show ?thesis by blast
qed


section \<open>Properties of the PCM codec\<close>

lemma MAX_INT_SAMPLE_VALUE_eq: "MAX_INT_SAMPLE_VALUE = 32767"
  by (simp add: MAX_INT_SAMPLE_VALUE_def SAMPLE_WIDTH_def)




lemma trunc_toward_zero_bounds:
  assumes "- real_of_int n \<le> y" "y \<le> real_of_int n"
  shows "- n \<le> trunc_toward_zero y \<and> trunc_toward_zero y \<le> n"
proof (cases "0 \<le> y")
  case True
  then have "0 \<le> \<lfloor>y\<rfloor>" "\<lfloor>y\<rfloor> \<le> n" using assms by (simp_all add: floor_le_iff)
  with True assms show ?thesis by (simp add: trunc_toward_zero_def) linarith
next
  case False
  then have "\<lceil>y\<rceil> \<le> 0" "- n \<le> \<lceil>y\<rceil>" using assms by (simp_all add: ceiling_le_iff le_ceiling_iff)
  with False assms show ?thesis by (simp add: trunc_toward_zero_def) linarith
qed



lemma length_tobytes: "length (tobytes ws) = 2 * length ws"
proof -
  have "length (tobytes ws) = length (map (\<lambda>w. [ucast w, ucast (drop_bit 8 w) :: 8 word]) ws) * 2"
    unfolding tobytes_def by (rule length_concat_uniform) auto
  then show ?thesis by simp
qed

lemma nth_tobytes:
  assumes "i < length ws"
  shows "tobytes ws ! (2 * i) = ucast (ws ! i)"
    and "tobytes ws ! (2 * i + 1) = ucast (drop_bit 8 (ws ! i))"
proof -
  let ?xss = "map (\<lambda>w. [ucast w, ucast (drop_bit 8 w) :: 8 word]) ws"
  have u: "\<forall>xs\<in>set ?xss. length xs = 2" by auto
  have "concat ?xss ! (i * 2 + 0) = ?xss ! i ! 0"
    using assms by (intro nth_concat_uniform [OF u]) auto
  then show "tobytes ws ! (2 * i) = ucast (ws ! i)"
    using assms by (simp add: tobytes_def mult.commute)
  have "concat ?xss ! (i * 2 + 1) = ?xss ! i ! 1"
    using assms by (intro nth_concat_uniform [OF u]) auto
  then show "tobytes ws ! (2 * i + 1) = ucast (drop_bit 8 (ws ! i))"
    using assms by (simp add: tobytes_def mult.commute)
qed

lemma uint_le_bytes:
  fixes w :: "16 word"
  shows "uint (ucast w :: 8 word) + 256 * uint (ucast (drop_bit 8 w) :: 8 word) = uint w"
proof -
  have lo: "uint (ucast w :: 8 word) = uint w mod 256"
    by (simp add: unsigned_ucast_eq take_bit_eq_mod)
  have lt: "uint w < 65536" using uint_bounded [of w] by simp
  have "uint (ucast (drop_bit 8 w) :: 8 word) = (uint w div 256) mod 256"
    by (simp add: unsigned_ucast_eq take_bit_eq_mod drop_bit_eq_div uint_div)
  also have "\<dots> = uint w div 256"
  proof (rule mod_pos_pos_trivial)
    show "0 \<le> uint w div 256" by (simp add: pos_imp_zdiv_nonneg_iff)
    show "uint w div 256 < 256" using lt by simp
  qed
  finally have hi: "uint (ucast (drop_bit 8 w) :: 8 word) = uint w div 256" .
  show ?thesis unfolding lo hi by simp
qed










subsection \<open>The encoding in \<^verbatim>\<open>float64\<close> arithmetic\<close>

lemma np_clip_f64_unit:
  "np_clip_f64 NaN (Fin (- 1)) (Fin 1) = NaN"
  "np_clip_f64 PInf (Fin (- 1)) (Fin 1) = Fin 1"
  "np_clip_f64 NInf (Fin (- 1)) (Fin 1) = Fin (- 1)"
  "np_clip_f64 (Fin x) (Fin (- 1)) (Fin 1) = Fin (min (max x (- 1)) 1)"
  by (auto simp: np_clip_f64_def fmaximum_def fminimum_def)

lemma np_clip_f64_cases:
  assumes "s \<noteq> NaN"
  shows "\<exists>c. np_clip_f64 s (Fin (- 1)) (Fin 1) = Fin c \<and> - 1 \<le> c \<and> c \<le> 1 \<and>
           (\<forall>x. s = Fin x \<longrightarrow> c = min (max x (- 1)) 1)"
  using assms by (cases s) (simp_all add: np_clip_f64_unit)

lemma scaled_sample:
  assumes "- 1 \<le> c" "c \<le> 1"
  shows "\<exists>v. fmul (Fin c) (Fin 32767) = Fin v \<and> - 32767 \<le> v \<and> v \<le> 32767"
proof -
  have "\<bar>c * 32767\<bar> \<le> real_of_int 32767 * 2 powi 0" using assms by simp
  then have "round_f64 (c * 32767) = Fin (f64_nearest (c * 32767)) \<and>
      \<bar>f64_nearest (c * 32767)\<bar> \<le> real_of_int 32767 * 2 powi 0"
    by (rule round_f64_bounded) simp_all
  then show ?thesis by (intro exI [of _ "f64_nearest (c * 32767)"]) (simp add: abs_le_iff)
qed

lemma astype_i2_f64_in_range:
  assumes "- 32767 \<le> v" "v \<le> 32767"
  shows "astype_i2_f64 platform_cast (Fin v) = word_of_int (trunc_toward_zero v)"
  using assms by (simp add: astype_i2_f64_def)

lemma convert_to_bytes_f64_words:
  "convert_to_bytes_f64 platform_cast samples =
     tobytes (map (\<lambda>s. astype_i2_f64 platform_cast (fmul (np_clip_f64 s (Fin (- 1)) (Fin 1)) (Fin 32767)))
               samples)"
  by (simp add: convert_to_bytes_f64_def MAX_INT_SAMPLE_VALUE_eq comp_def)

text \<open>
  C1, as stated, fails for a NaN sample: \<^verbatim>\<open>np.clip\<close> leaves it NaN, so it is not clipped to
  \<open>[-1, 1]\<close>, and its two bytes are those of whatever the conversion of NaN to an
  integer gives on the platform.
\<close>

theorem convert_to_bytes_nan_counterexample:
  "np_clip_f64 NaN (Fin (- 1)) (Fin 1) = NaN \<and>
   convert_to_bytes_f64 (\<lambda>x. 0) [NaN] = [0x00, 0x00] \<and>
   convert_to_bytes_f64 (\<lambda>x. 0x8000) [NaN] = [0x00, 0x80]"
  by (simp add: convert_to_bytes_f64_words np_clip_f64_unit astype_i2_f64_def tobytes_def)

text \<open>
  C1, amended: for every list of \<^verbatim>\<open>float64\<close> samples \<^verbatim>\<open>convert_to_bytes\<close> returns two bytes
  for every sample. Every sample that is not NaN (an infinity included) is clipped to
  \<open>[-1, 1]\<close>, multiplied by \<open>32767\<close> in \<^verbatim>\<open>float64\<close> (the product is rounded) and truncated
  toward zero to an integer \<open>q\<close> that fits a signed 16-bit integer, and bytes \<open>2 * i\<close> and
  \<open>2 * i + 1\<close> are the low and the high byte of its two's complement (\<open>q mod 65536\<close>). In
  particular \<^verbatim>\<open>convert_to_bytes([1.0, -1.0])\<close> is \<^verbatim>\<open>FF 7F 01 80\<close>.
\<close>

theorem convert_to_bytes_encoding:
  "length (convert_to_bytes_f64 platform_cast samples) = 2 * length samples \<and>
   (\<forall>i < length samples. samples ! i \<noteq> NaN \<longrightarrow>
      (\<exists>c v. np_clip_f64 (samples ! i) (Fin (- 1)) (Fin 1) = Fin c \<and> - 1 \<le> c \<and> c \<le> 1 \<and>
         (\<forall>x. samples ! i = Fin x \<longrightarrow> c = min (max x (- 1)) 1) \<and>
         fmul (Fin c) (Fin 32767) = Fin v \<and>
         - 32767 \<le> trunc_toward_zero v \<and> trunc_toward_zero v \<le> 32767 \<and>
         uint (convert_to_bytes_f64 platform_cast samples ! (2 * i))
           + 256 * uint (convert_to_bytes_f64 platform_cast samples ! (2 * i + 1))
           = trunc_toward_zero v mod 65536)) \<and>
   convert_to_bytes_f64 platform_cast [Fin 1, Fin (- 1)] = [0xFF, 0x7F, 0x01, 0x80]"
proof (intro conjI allI impI)
  show "length (convert_to_bytes_f64 platform_cast samples) = 2 * length samples"
    by (simp add: convert_to_bytes_f64_words length_tobytes)
next
  fix i assume i: "i < length samples" and nn: "samples ! i \<noteq> NaN"
  let ?ws = "map (\<lambda>s. astype_i2_f64 platform_cast (fmul (np_clip_f64 s (Fin (- 1)) (Fin 1)) (Fin 32767)))
               samples"
  from np_clip_f64_cases [OF nn] obtain c
    where c: "np_clip_f64 (samples ! i) (Fin (- 1)) (Fin 1) = Fin c" "- 1 \<le> c" "c \<le> 1"
      "\<forall>x. samples ! i = Fin x \<longrightarrow> c = min (max x (- 1)) 1"
    by blast
  from scaled_sample [OF c(2,3)] obtain v
    where v: "fmul (Fin c) (Fin 32767) = Fin v" "- 32767 \<le> v" "v \<le> 32767"
    by blast
  have q: "- 32767 \<le> trunc_toward_zero v \<and> trunc_toward_zero v \<le> 32767"
    using trunc_toward_zero_bounds [of 32767 v] v(2,3) by simp
  have w: "?ws ! i = word_of_int (trunc_toward_zero v)"
    using i c(1) v by (simp add: astype_i2_f64_in_range)
  have "uint (tobytes ?ws ! (2 * i)) + 256 * uint (tobytes ?ws ! (2 * i + 1)) = uint (?ws ! i)"
    using i by (simp only: nth_tobytes length_map uint_le_bytes)
  also have "\<dots> = trunc_toward_zero v mod 65536"
    by (simp add: w uint_word_of_int)
  finally have b: "uint (convert_to_bytes_f64 platform_cast samples ! (2 * i))
           + 256 * uint (convert_to_bytes_f64 platform_cast samples ! (2 * i + 1))
           = trunc_toward_zero v mod 65536"
    by (simp only: convert_to_bytes_f64_words)
  from c v(1) q b
  show "\<exists>c v. np_clip_f64 (samples ! i) (Fin (- 1)) (Fin 1) = Fin c \<and> - 1 \<le> c \<and> c \<le> 1 \<and>
         (\<forall>x. samples ! i = Fin x \<longrightarrow> c = min (max x (- 1)) 1) \<and>
         fmul (Fin c) (Fin 32767) = Fin v \<and>
         - 32767 \<le> trunc_toward_zero v \<and> trunc_toward_zero v \<le> 32767 \<and>
         uint (convert_to_bytes_f64 platform_cast samples ! (2 * i))
           + 256 * uint (convert_to_bytes_f64 platform_cast samples ! (2 * i + 1))
           = trunc_toward_zero v mod 65536"
    by blast
next
  have "fmul (Fin 1) (Fin 32767) = Fin 32767" using round_f64_of_int [of 32767] by simp
  moreover have "fmul (Fin (- 1)) (Fin 32767) = Fin (- 32767)"
    using round_f64_of_int [of "- 32767"] by simp
  ultimately show "convert_to_bytes_f64 platform_cast [Fin 1, Fin (- 1)] = [0xFF, 0x7F, 0x01, 0x80]"
    by (simp add: convert_to_bytes_f64_words np_clip_f64_unit astype_i2_f64_def tobytes_def
        trunc_toward_zero_def)
qed

theorem convert_to_bytes_encoding_witness:
  "0 < length [Fin (35185445863425 / 2 ^ 60), PInf] \<and> Fin (35185445863425 / 2 ^ 60) \<noteq> NaN \<and>
   np_clip_f64 (Fin (35185445863425 / 2 ^ 60)) (Fin (- 1)) (Fin 1) = Fin (35185445863425 / 2 ^ 60) \<and>
   fmul (Fin (35185445863425 / 2 ^ 60)) (Fin 32767) = Fin 1 \<and> trunc_toward_zero 1 = 1 \<and>
   convert_to_bytes_f64 (\<lambda>x. 0) [Fin (35185445863425 / 2 ^ 60), PInf] = [0x01, 0x00, 0xFF, 0x7F] \<and>
   uint (0x01 :: 8 word) + 256 * uint (0x00 :: 8 word) = 1 mod 65536"
proof -
  let ?x = "35185445863425 / 2 ^ 60 :: real"
  have "f64_nearest (?x * 32767)
          = real_of_int (round_half_even (?x * 32767 / 2 powi (- 1 - 52))) * 2 powi (- 1 - 52)"
    by (rule f64_nearest_eval) (simp_all add: power_int_minus_divide)
  also have "?x * 32767 / 2 powi (- 1 - 52) = 1152921504606846975 / 128"
    by (simp add: power_int_minus_divide)
  also have "round_half_even (1152921504606846975 / 128) = 2 ^ 53"
    by (simp add: round_half_even_def)
  finally have n: "f64_nearest (?x * 32767) = 1"
    by (simp add: power_int_minus_divide)
  have "round_f64 (?x * 32767) = Fin 1"
    by (rule round_f64_of_nearest [OF n]) simp
  then have m: "fmul (Fin ?x) (Fin 32767) = Fin 1"
    by (simp only: fmul.simps)
  have k: "np_clip_f64 (Fin ?x) (Fin (- 1)) (Fin 1) = Fin ?x"
    by (simp add: np_clip_f64_unit)
  have t: "trunc_toward_zero 1 = 1" by (simp add: trunc_toward_zero_def)
  have i: "fmul (Fin 1) (Fin 32767) = Fin 32767" using round_f64_of_int [of 32767] by simp
  have b: "convert_to_bytes_f64 (\<lambda>x. 0) [Fin ?x, PInf] = [0x01, 0x00, 0xFF, 0x7F]"
    unfolding convert_to_bytes_f64_words using k m i
    by (simp add: np_clip_f64_unit astype_i2_f64_def tobytes_def trunc_toward_zero_def
        del: fmul.simps)
  from convert_to_bytes_encoding [of "\<lambda>x. 0" "[Fin ?x, PInf]"]
  have "length (convert_to_bytes_f64 (\<lambda>x. 0) [Fin ?x, PInf]) = 2 * length [Fin ?x, PInf]"
    by (rule conjunct1)
  with k m t b show ?thesis by simp
qed


section \<open>Properties of normalisation\<close>

lemma fold_fgt_zeros:
  "\<forall>x \<in> set xs. x = Fin 0 \<Longrightarrow>
     fold (\<lambda>item maxval. if fgt item maxval then item else maxval) xs (Fin 0) = Fin 0"
  by (induction xs) auto

lemma py_max_zeros:
  assumes "xs \<noteq> []" "\<forall>x \<in> set xs. x = Fin 0"
  shows "py_max (map fabs xs) = Inr (Fin 0)"
proof -
  obtain y ys where xs: "xs = y # ys" using assms(1) by (cases xs) auto
  with assms(2) have "y = Fin 0" "\<forall>x \<in> set (map fabs ys). x = Fin 0" by auto
  with xs show ?thesis by (simp add: fold_fgt_zeros del: set_map)
qed

lemma fmul_fdiv_zero: "fmul (fdiv t (Fin 0)) (Fin 0) = NaN"
  by (cases t) auto

text \<open>
  C3, as stated, fails for a signal of zeros: the maximum is \<open>0\<close>, the division by it
  raises nothing and gives an infinity, and the product of an infinity and \<open>0\<close> is NaN.
\<close>

theorem normalize_zero_counterexample:
  "normalize_samples [Fin 0, Fin 0] (Fin (89 / 100)) = Inr [NaN, NaN]"
  by (simp add: normalize_samples_def)

text \<open>
  C3, amended: \<^verbatim>\<open>normalize\<close> of an empty signal raises \<^verbatim>\<open>ValueError\<close> (from \<^verbatim>\<open>max\<close>); of a
  non-empty signal of zeros it raises nothing and returns, whatever the target, a signal
  of the same length whose every sample is NaN.
\<close>

theorem normalize_degenerate:
  "normalize_samples [] t = Inl ValueError \<and>
   (xs \<noteq> [] \<and> (\<forall>x \<in> set xs. x = Fin 0) \<longrightarrow>
      normalize_samples xs t = Inr (replicate (length xs) NaN))"
proof (intro conjI impI)
  show "normalize_samples [] t = Inl ValueError" by (simp add: normalize_samples_def)
next
  assume a: "xs \<noteq> [] \<and> (\<forall>x \<in> set xs. x = Fin 0)"
  then have m: "py_max (map fabs xs) = Inr (Fin 0)" by (simp add: py_max_zeros)
  have "map (fmul (fdiv t (Fin 0))) xs = map (\<lambda>_. NaN) xs"
    using a by (intro map_cong) (auto simp: fmul_fdiv_zero)
  then have "map (fmul (fdiv t (Fin 0))) xs = replicate (length xs) NaN"
    by (simp add: map_replicate_const)
  with m show "normalize_samples xs t = Inr (replicate (length xs) NaN)"
    by (simp add: normalize_samples_def)
qed

theorem normalize_degenerate_witness:
  "normalize_samples [] (Fin (89 / 100)) = Inl ValueError \<and>
   [Fin 0, Fin 0, Fin 0] \<noteq> [] \<and> list_all (\<lambda>x. x = Fin 0) [Fin 0, Fin 0, Fin 0] \<and>
   normalize_samples [Fin 0, Fin 0, Fin 0] (Fin (89 / 100)) = Inr [NaN, NaN, NaN]"
proof -
  have h: "[Fin 0, Fin 0, Fin 0] \<noteq> [] \<and> (\<forall>x \<in> set [Fin 0, Fin 0, Fin 0]. x = Fin 0)"
    by simp
  from normalize_degenerate [of "Fin (89 / 100)" "[Fin 0, Fin 0, Fin 0]"] h
  have "normalize_samples [Fin 0, Fin 0, Fin 0] (Fin (89 / 100))
          = Inr (replicate (length [Fin 0, Fin 0, Fin 0]) NaN)"
    by blast
  moreover have "normalize_samples [] (Fin (89 / 100)) = Inl ValueError"
    using normalize_degenerate [of "Fin (89 / 100)" "[]"] by blast
  ultimately show ?thesis by (simp add: numeral_3_eq_3)
qed










text \<open>
  A coefficient that overflows: the smallest positive \<^verbatim>\<open>float64\<close> as only sample and the
  target \<open>1\<close> give an infinite coefficient and an infinite result.
\<close>

lemma normalize_overflow_example:
  "normalize_samples [Fin (2 powi (- 1074))] (Fin 1) = Inr [PInf]"
proof -
  have "(1::real) / 2 powi (- 1074) = 2 ^ 1074" by (simp add: power_int_minus_divide)
  then have "round_f64 (1 / 2 powi (- 1074)) = PInf" by (simp add: round_f64_overflow)
  then show ?thesis by (simp add: normalize_samples_def)
qed


end
